theory Spec2Isabelle
  imports Main
begin

section \<open>Data model of the giveaway bot (src/bot.py)\<close>

text \<open>
  The bot keeps all of its state in an SQLite database. Each helper of the source opens
  a connection, runs its statements and commits, so a helper is a function from the
  database to the database. Identifiers (guild, user, giveaway, channel) are Python
  integers. The \<open>wins\<close> column is an SQLite integer; its 64-bit bound is out of reach
  of increments by one and is not modelled.
\<close>

record giveaway =
  gw_id :: int
  guild_id :: int
  channel_id :: int
  message_id :: "int option"
  host_id :: int
  prize :: string
  winners_count :: int
  ends_at :: int
  status :: string

text \<open>
  The tables. Rows are kept in insertion (rowid) order. \<open>last_rowid\<close> is the counter
  that \<open>AUTOINCREMENT\<close> keeps for \<open>giveaways.id\<close>. \<open>win_counts\<close> has primary key
  (guild_id, user_id) and one integer per row, so it is a map.
\<close>

record db =
  giveaways :: "giveaway list"
  last_rowid :: int
  entrants :: "(int \<times> int) list"
  winners :: "(int \<times> int) list"
  win_counts :: "(int \<times> int) \<rightharpoonup> int"
  vouches :: "(int \<times> int \<times> int) list"
  vouch_blocks :: "(int \<times> int \<times> int) list"

text \<open>
  What a call can end in instead of a result: the two exceptions the modelled code can
  raise, and \<open>NoReturn\<close>, which is no exception: the call does not return (the redraw
  loop of \<open>random.sample\<close> never sees a fresh index).
\<close>

datatype py_error = ValueError | IntegrityError | NoReturn

definition empty_db :: db where
  "empty_db = \<lparr>giveaways = [], last_rowid = 0, entrants = [], winners = [],
     win_counts = Map.empty, vouches = [], vouch_blocks = []\<rparr>"

section \<open>Storage helpers\<close>

definition fetch_giveaway :: "db \<Rightarrow> int \<Rightarrow> giveaway option" where
  "fetch_giveaway d i = find (\<lambda>g. gw_id g = i) (giveaways d)"


text \<open>\<open>insert_giveaway\<close>: the id of the object is ignored, the row gets the next rowid.\<close>

definition next_rowid :: "db \<Rightarrow> int" where
  "next_rowid d = max (last_rowid d) (fold max (map gw_id (giveaways d)) 0) + 1"

definition insert_giveaway :: "db \<Rightarrow> giveaway \<Rightarrow> int \<times> db" where
  "insert_giveaway d g =
     (let i = next_rowid d
      in (i, d\<lparr>giveaways := giveaways d @ [g\<lparr>gw_id := i\<rparr>], last_rowid := i\<rparr>))"

text \<open>
  \<open>SELECT user_id FROM entrants WHERE giveaway_id = ?\<close> has no \<open>ORDER BY\<close>. SQLite
  answers it from the index of the primary key (giveaway_id, user_id), so the users come
  in ascending order, whatever the order of insertion. The same holds for \<open>winners\<close>.
\<close>

definition get_entrants :: "db \<Rightarrow> int \<Rightarrow> int list" where
  "get_entrants d i = sort (map snd (filter (\<lambda>r. fst r = i) (entrants d)))"

text \<open>
  \<open>add_entrant\<close>: \<open>INSERT OR IGNORE\<close>; a foreign-key violation (no such giveaway) raises,
  and the source swallows every exception here.
\<close>

definition add_entrant :: "db \<Rightarrow> int \<Rightarrow> int \<Rightarrow> db" where
  "add_entrant d i u =
     (if fetch_giveaway d i = None then d
      else if (i, u) \<in> set (entrants d) then d
      else d\<lparr>entrants := entrants d @ [(i, u)]\<rparr>)"

definition remove_entrant :: "db \<Rightarrow> int \<Rightarrow> int \<Rightarrow> db" where
  "remove_entrant d i u = d\<lparr>entrants := filter (\<lambda>r. r \<noteq> (i, u)) (entrants d)\<rparr>"

definition get_winners :: "db \<Rightarrow> int \<Rightarrow> int list" where
  "get_winners d i = sort (map snd (filter (\<lambda>r. fst r = i) (winners d)))"

text \<open>One \<open>INSERT OR IGNORE INTO winners\<close>: a row that is already there is skipped.\<close>

definition insert_winner :: "int \<Rightarrow> int \<Rightarrow> (int \<times> int) list \<Rightarrow> (int \<times> int) list" where
  "insert_winner i u ws = (if (i, u) \<in> set ws then ws else ws @ [(i, u)])"

text \<open>
  \<open>set_winners\<close>: \<open>executemany\<close> of the insert. \<open>OR IGNORE\<close> does not cover the foreign
  key: with no giveaway row the first insert raises and nothing is committed.
\<close>

definition set_winners :: "db \<Rightarrow> int \<Rightarrow> int list \<Rightarrow> py_error + db" where
  "set_winners d i us =
     (if us \<noteq> [] \<and> fetch_giveaway d i = None then Inl IntegrityError
      else Inr (d\<lparr>winners := fold (insert_winner i) us (winners d)\<rparr>))"

text \<open>The upsert \<open>INSERT ... VALUES (?, ?, 1) ON CONFLICT DO UPDATE SET wins = wins + 1\<close>.\<close>

definition bump_win :: "int \<Rightarrow> int \<Rightarrow> ((int \<times> int) \<rightharpoonup> int) \<Rightarrow> ((int \<times> int) \<rightharpoonup> int)" where
  "bump_win g u m = m((g, u) \<mapsto> (case m (g, u) of None \<Rightarrow> 1 | Some w \<Rightarrow> w + 1))"

definition increment_win_counts :: "db \<Rightarrow> int \<Rightarrow> int list \<Rightarrow> db" where
  "increment_win_counts d g us = d\<lparr>win_counts := fold (bump_win g) us (win_counts d)\<rparr>"

definition remove_winners :: "db \<Rightarrow> int \<Rightarrow> int list \<Rightarrow> db" where
  "remove_winners d i us =
     d\<lparr>winners := filter (\<lambda>r. \<not> (fst r = i \<and> snd r \<in> set us)) (winners d)\<rparr>"

text \<open>\<open>UPDATE win_counts SET wins = wins - 1 WHERE guild_id = ? AND user_id = ? AND wins > 0\<close>.\<close>

definition drop_win :: "int \<Rightarrow> int \<Rightarrow> ((int \<times> int) \<rightharpoonup> int) \<Rightarrow> ((int \<times> int) \<rightharpoonup> int)" where
  "drop_win g u m =
     (case m (g, u) of None \<Rightarrow> m | Some w \<Rightarrow> if w > 0 then m((g, u) \<mapsto> w - 1) else m)"

text \<open>\<open>DELETE FROM win_counts WHERE guild_id = ? AND wins <= 0\<close>.\<close>

definition prune_zero :: "int \<Rightarrow> ((int \<times> int) \<rightharpoonup> int) \<Rightarrow> ((int \<times> int) \<rightharpoonup> int)" where
  "prune_zero g m =
     (\<lambda>k. case m k of None \<Rightarrow> None | Some w \<Rightarrow> if fst k = g \<and> w \<le> 0 then None else Some w)"

definition decrement_win_counts :: "db \<Rightarrow> int \<Rightarrow> int list \<Rightarrow> db" where
  "decrement_win_counts d g us =
     d\<lparr>win_counts := prune_zero g (fold (drop_win g) us (win_counts d))\<rparr>"

definition set_giveaway_status :: "db \<Rightarrow> int \<Rightarrow> string \<Rightarrow> db" where
  "set_giveaway_status d i s =
     d\<lparr>giveaways := map (\<lambda>g. if gw_id g = i then g\<lparr>status := s\<rparr> else g) (giveaways d)\<rparr>"

text \<open>The two reads of \<open>JoinView.join\<close>: the stored win count and \<open>COUNT(*)\<close> of vouches.\<close>

definition row_wins :: "((int \<times> int) \<rightharpoonup> int) \<Rightarrow> int \<times> int \<Rightarrow> int" where
  "row_wins m k = (case m k of None \<Rightarrow> 0 | Some w \<Rightarrow> w)"

definition wins_of :: "db \<Rightarrow> int \<Rightarrow> int \<Rightarrow> int" where
  "wins_of d g u = row_wins (win_counts d) (g, u)"

definition vouch_count :: "db \<Rightarrow> int \<Rightarrow> int \<Rightarrow> int" where
  "vouch_count d g u = int (length (filter (\<lambda>(g', u', _). g' = g \<and> u' = u) (vouches d)))"

section \<open>Entering a giveaway\<close>

datatype join_result = NotEligible int int | AlreadyEntered | Joined

definition join :: "db \<Rightarrow> int \<Rightarrow> int \<Rightarrow> int \<Rightarrow> join_result \<times> db" where
  "join d guild i user =
     (let wins = wins_of d guild user;
          vc = vouch_count d guild user
      in if wins > vc then (NotEligible wins vc, d)
         else if user \<in> set (get_entrants d i) then (AlreadyEntered, d)
         else (Joined, add_entrant d i user))"

definition leave :: "db \<Rightarrow> int \<Rightarrow> int \<Rightarrow> bool \<times> db" where
  "leave d i user =
     (if user \<notin> set (get_entrants d i) then (False, d)
      else (True, remove_entrant d i user))"

text \<open>Entry is approved when the eligibility check does not reject the click.\<close>

definition approved :: "join_result \<Rightarrow> bool" where
  "approved r = (case r of NotEligible _ _ \<Rightarrow> False | _ \<Rightarrow> True)"

section \<open>Runtime choices\<close>

text \<open>
  Two things the source leaves to the Python runtime. The order in which a \<open>set\<close> of
  integers is iterated (\<open>list(set(xs))\<close>) is a parameter \<open>si\<close> of the operations that
  use it: a function from the list the set is built from to the list it is read back
  as. Every runtime yields each element once.
\<close>

definition set_iter_ok :: "(int list \<Rightarrow> int list) \<Rightarrow> bool" where
  "set_iter_ok si = (\<forall>xs. distinct (si xs) \<and> set (si xs) = set xs)"

text \<open>
  \<open>random.sample(population, k)\<close> of the standard library. The values returned by the
  successive calls of \<open>randbelow\<close> are the argument \<open>rs\<close>, reduced to the valid range;
  after them the generator is taken to return 0 for ever. A negative or too large \<open>k\<close>
  raises. The library has two branches. For a population of at most \<open>setsize\<close> elements
  it copies the population and runs the pick-and-swap loop: the chosen slot is refilled
  with the last live element.
\<close>

fun sample_loop :: "int list \<Rightarrow> nat \<Rightarrow> nat list \<Rightarrow> int list" where
  "sample_loop pool 0 rs = []"
| "sample_loop [] (Suc k) rs = []"
| "sample_loop (p # ps) (Suc k) rs =
     (let pool = p # ps;
          j = (case rs of [] \<Rightarrow> 0 | r # _ \<Rightarrow> r) mod length pool
      in pool ! j # sample_loop (butlast (pool[j := last pool])) k (tl rs))"

text \<open>
  \<open>setsize = 21\<close>, and for \<open>k > 5\<close> it grows by \<open>4 ** ceil(log(k * 3, 4))\<close>, the least
  power of 4 that is at least \<open>3k\<close> (\<open>3k\<close> is never a power of 4, so the rounding of the
  floating-point logarithm does not matter for any \<open>k\<close> a list can have).
\<close>

function pow4_from :: "nat \<Rightarrow> nat \<Rightarrow> nat" where
  "pow4_from p m = (if p = 0 \<or> m \<le> p then p else pow4_from (4 * p) m)"
  by pat_completeness auto
termination
  by (relation "measure (\<lambda>(p, m). m - p)") auto

definition setsize :: "nat \<Rightarrow> nat" where
  "setsize k = (if k > 5 then 21 + pow4_from 1 (3 * k) else 21)"

text \<open>
  For a larger population the library remembers the indices already selected and, for
  each of the \<open>k\<close> picks, draws an index below \<open>n\<close> again and again until it is a fresh
  one. \<open>redraw\<close> is that inner loop on the values supplied: it gives the fresh index and
  the values left, or \<open>None\<close> when the values end before a fresh index comes.
\<close>

fun redraw :: "nat list \<Rightarrow> nat \<Rightarrow> nat list \<Rightarrow> (nat \<times> nat list) option" where
  "redraw selected n [] = None"
| "redraw selected n (r # rs) =
     (if r mod n \<in> set selected then redraw selected n rs else Some (r mod n, rs))"

fun sample_set :: "int list \<Rightarrow> nat list \<Rightarrow> nat \<Rightarrow> nat list \<Rightarrow> int list option" where
  "sample_set population selected 0 rs = Some []"
| "sample_set population selected (Suc k) rs =
     (case redraw selected (length population) rs of
        None \<Rightarrow> None
      | Some (j, rs') \<Rightarrow>
          map_option ((#) (population ! j)) (sample_set population (j # selected) k rs'))"

text \<open>
  In the second branch the zeros that follow \<open>rs\<close> matter once: a pick that reaches them
  takes index 0 if it is fresh, and otherwise, as every later pick, redraws for ever.
\<close>

definition sample :: "int list \<Rightarrow> int \<Rightarrow> nat list \<Rightarrow> py_error + int list" where
  "sample population k rs =
     (if 0 \<le> k \<and> k \<le> int (length population) then
        (if length population \<le> setsize (nat k)
         then Inr (sample_loop population (nat k) rs)
         else case sample_set population [] (nat k) (rs @ [0]) of
                None \<Rightarrow> Inl NoReturn
              | Some ws \<Rightarrow> Inr ws)
      else Inl ValueError)"

section \<open>Closing a giveaway\<close>






section \<open>Reroll\<close>

datatype reroll_result =
  RerollNotFound | NotEnded | NoPreviousWinners | NotAWinner | NoEntrants | NoEligiblePool
  | RerollFailed py_error | Rerolled "int list" "int list"

text \<open>
  Which winners to remove: \<open>[target_user.id]\<close>, or \<open>prev_winners[-k:]\<close> with
  \<open>k = min(max(1, count or 1), len(prev_winners))\<close>. \<open>None\<close> is the early return for a
  target that is not in \<open>prev_winners\<close>.
\<close>

definition to_remove_of :: "int list \<Rightarrow> int option \<Rightarrow> int option \<Rightarrow> int list option" where
  "to_remove_of prev_winners count target =
     (case target of
        Some t \<Rightarrow> if t \<notin> set prev_winners then None else Some [t]
      | None \<Rightarrow>
          (let c = (case count of None \<Rightarrow> 1 | Some c \<Rightarrow> if c = 0 then 1 else c);
               k = min (max 1 c) (int (length prev_winners))
           in Some (drop (length prev_winners - nat k) prev_winners)))"

text \<open>
  The command \<open>/gw reroll\<close>. Each storage helper commits on its own, so an early return
  after the removal leaves the removal in the database: the second component is the
  database as the command leaves it.
\<close>

definition reroll ::
  "(int list \<Rightarrow> int list) \<Rightarrow> db \<Rightarrow> int \<Rightarrow> int \<Rightarrow> int option \<Rightarrow> int option \<Rightarrow> nat list
     \<Rightarrow> reroll_result \<times> db" where
  "reroll si d guild i count target rs =
     (case fetch_giveaway d i of
        None \<Rightarrow> (RerollNotFound, d)
      | Some g \<Rightarrow>
          if guild_id g \<noteq> guild then (RerollNotFound, d)
          else if status g \<noteq> ''ended'' then (NotEnded, d)
          else
            (let prev_winners = si (get_winners d (gw_id g))
             in if prev_winners = [] then (NoPreviousWinners, d)
                else
                  (case to_remove_of prev_winners count target of
                     None \<Rightarrow> (NotAWinner, d)
                   | Some to_remove \<Rightarrow>
                       (let d1 = decrement_win_counts
                                   (remove_winners d (gw_id g) to_remove) (guild_id g) to_remove;
                            ents = get_entrants d1 (gw_id g)
                        in if ents = [] then (NoEntrants, d1)
                           else
                             (let pool = si (filter (\<lambda>u. u \<notin> set prev_winners) ents)
                              in if pool = [] then (NoEligiblePool, d1)
                                 else
                                   (let k = min (int (length pool)) (int (length to_remove))
                                    in case sample pool k rs of
                                         Inl e \<Rightarrow> (RerollFailed e, d1)
                                       | Inr new_winners \<Rightarrow>
                                           (case set_winners d1 (gw_id g) new_winners of
                                              Inl e \<Rightarrow> (RerollFailed e, d1)
                                            | Inr d2 \<Rightarrow>
                                                (Rerolled to_remove new_winners,
                                                 increment_win_counts d2 (guild_id g)
                                                   new_winners))))))))"

section \<open>Delete, manual adjustment, manual giveaway\<close>

text \<open>
  A connection to the database: what is committed, which is what every other connection
  reads, and the working copy with the changes of the statements executed so far.
  \<open>commit\<close> makes the working copy the committed database; a connection closed without
  a commit leaves the committed database as it was.
\<close>

record connection =
  committed :: db
  working :: db

definition connect :: "db \<Rightarrow> connection" where
  "connect d = \<lparr>committed = d, working = d\<rparr>"

definition execute :: "(db \<Rightarrow> db) \<Rightarrow> connection \<Rightarrow> connection" where
  "execute stmt c = c\<lparr>working := stmt (working c)\<rparr>"

definition commit :: "connection \<Rightarrow> connection" where
  "commit c = c\<lparr>committed := working c\<rparr>"

text \<open>
  The writes of \<open>delete_giveaway\<close>, in the order of the source, for giveaway \<open>i\<close> of
  guild \<open>guild\<close> with winners \<open>ws\<close>: delete the vouches, delete the vouch blocks, delete
  the giveaway row (the delete cascades to \<open>entrants\<close>, \<open>winners\<close> and \<open>vouches\<close>;
  \<open>vouch_blocks\<close> has no foreign key), lower the win count of each winner, delete the
  rows of the guild that are not positive.
\<close>

definition delete_statements :: "int \<Rightarrow> int \<Rightarrow> int list \<Rightarrow> (db \<Rightarrow> db) list" where
  "delete_statements i guild ws =
     [\<lambda>d. d\<lparr>vouches := filter (\<lambda>(_, _, gi). gi \<noteq> i) (vouches d)\<rparr>,
      \<lambda>d. d\<lparr>vouch_blocks := filter (\<lambda>(_, _, gi). gi \<noteq> i) (vouch_blocks d)\<rparr>,
      \<lambda>d. d\<lparr>giveaways := filter (\<lambda>g. gw_id g \<noteq> i) (giveaways d),
              entrants := filter (\<lambda>r. fst r \<noteq> i) (entrants d),
              winners := filter (\<lambda>r. fst r \<noteq> i) (winners d),
              vouches := filter (\<lambda>(_, _, gi). gi \<noteq> i) (vouches d)\<rparr>,
      \<lambda>d. d\<lparr>win_counts := fold (drop_win guild) ws (win_counts d)\<rparr>,
      \<lambda>d. d\<lparr>win_counts := prune_zero guild (win_counts d)\<rparr>]"

text \<open>
  \<open>delete_giveaway\<close>: one connection; the guild and the winners are read first, then
  the statements are executed, then the one commit. With no row for the id it returns
  \<open>False\<close> before any write.
\<close>

definition delete_giveaway :: "db \<Rightarrow> int \<Rightarrow> bool \<times> db" where
  "delete_giveaway d i =
     (case fetch_giveaway d i of
        None \<Rightarrow> (False, d)
      | Some g \<Rightarrow>
          (True, committed (commit (fold execute
                                      (delete_statements i (guild_id g) (get_winners d i))
                                      (connect d)))))"

text \<open>The command \<open>/gw delete\<close>.\<close>

datatype delete_result = DeleteNotFound | CouldNotDelete | Deleted

definition delete_cmd :: "db \<Rightarrow> int \<Rightarrow> int \<Rightarrow> delete_result \<times> db" where
  "delete_cmd d guild i =
     (case fetch_giveaway d i of
        None \<Rightarrow> (DeleteNotFound, d)
      | Some g \<Rightarrow>
          if guild_id g \<noteq> guild then (DeleteNotFound, d)
          else (case delete_giveaway d i of
                  (False, d') \<Rightarrow> (CouldNotDelete, d')
                | (True, d') \<Rightarrow> (Deleted, d')))"

definition adjust_win_for_gw :: "db \<Rightarrow> int \<Rightarrow> int \<Rightarrow> int \<Rightarrow> bool \<times> db" where
  "adjust_win_for_gw d i u change =
     (case fetch_giveaway d i of
        None \<Rightarrow> (False, d)
      | Some g \<Rightarrow>
          (let guild = guild_id g
           in if change > 0 then
                (True, d\<lparr>winners := insert_winner i u (winners d),
                         win_counts := bump_win guild u (win_counts d)\<rparr>)
              else if change < 0 then
                (True, d\<lparr>winners := filter (\<lambda>r. r \<noteq> (i, u)) (winners d),
                         win_counts := prune_zero guild (drop_win guild u (win_counts d))\<rparr>)
              else (True, d)))"

text \<open>The command \<open>/gw adjustwins\<close>; \<open>add\<close> is the choice "Add win".\<close>

definition adjustwins :: "db \<Rightarrow> int \<Rightarrow> int \<Rightarrow> int \<Rightarrow> bool \<Rightarrow> bool \<times> db" where
  "adjustwins d guild i u add =
     (case fetch_giveaway d i of
        None \<Rightarrow> (False, d)
      | Some g \<Rightarrow>
          if guild_id g \<noteq> guild then (False, d)
          else adjust_win_for_gw d i u (if add then 1 else - 1))"

text \<open>
  \<open>add_manual_giveaway_with_winner\<close>: \<open>fetchone\<close> takes the first giveaway of the guild
  with that prize text; otherwise an ended giveaway is inserted (channel 0, host 0,
  one winner). Then the winner insert and the upsert of the win count.
\<close>

definition add_manual_giveaway_with_winner ::
  "db \<Rightarrow> int \<Rightarrow> string \<Rightarrow> int \<Rightarrow> int \<Rightarrow> int \<times> db" where
  "add_manual_giveaway_with_winner d guild p user now =
     (let row = find (\<lambda>g. guild_id g = guild \<and> prize g = p) (giveaways d);
          (i, d1) = (case row of
                       Some g \<Rightarrow> (gw_id g, d)
                     | None \<Rightarrow>
                         insert_giveaway d
                           \<lparr>gw_id = 0, guild_id = guild, channel_id = 0, message_id = None,
                            host_id = 0, prize = p, winners_count = 1, ends_at = now,
                            status = ''ended''\<rparr>)
      in (i, d1\<lparr>winners := insert_winner i user (winners d1),
                win_counts := bump_win guild user (win_counts d1)\<rparr>))"

text \<open>
  The command \<open>/gw start\<close>: the winner count is declared \<open>Range[int, 1, 50]\<close>, the parsed
  duration must be at least 10 seconds.
\<close>

definition start ::
  "db \<Rightarrow> int \<Rightarrow> int \<Rightarrow> int \<Rightarrow> int option \<Rightarrow> int \<Rightarrow> string \<Rightarrow> int \<Rightarrow> int option \<times> db" where
  "start d guild channel host seconds n p now =
     (if n < 1 \<or> 50 < n then (None, d)
      else case seconds of
             None \<Rightarrow> (None, d)
           | Some s \<Rightarrow>
               if s < 10 then (None, d)
               else (let (i, d') = insert_giveaway d
                                     \<lparr>gw_id = 0, guild_id = guild, channel_id = channel,
                                      message_id = None, host_id = host, prize = p,
                                      winners_count = n, ends_at = now + s,
                                      status = ''running''\<rparr>
                     in (Some i, d')))"

text \<open>
  A proof device, not a function of the source: the part of \<open>reroll\<close> that follows its
  validations, for a giveaway row \<open>g\<close> that exists, with the list \<open>prev\<close> of previous
  winners and the list \<open>tr\<close> of winners to remove. Lemma \<open>reroll_valid\<close> shows that
  \<open>reroll\<close> equals it there.
\<close>

definition reroll_body ::
  "(int list \<Rightarrow> int list) \<Rightarrow> db \<Rightarrow> giveaway \<Rightarrow> int list \<Rightarrow> int list \<Rightarrow> nat list
     \<Rightarrow> reroll_result \<times> db" where
  "reroll_body si d g prev tr rs =
     (let d1 = decrement_win_counts (remove_winners d (gw_id g) tr) (guild_id g) tr;
          ents = get_entrants d (gw_id g)
      in if ents = [] then (NoEntrants, d1)
         else
           (let pool = si (filter (\<lambda>u. u \<notin> set prev) ents)
            in if pool = [] then (NoEligiblePool, d1)
               else
                 (case sample pool (min (int (length pool)) (int (length tr))) rs of
                    Inl e \<Rightarrow> (RerollFailed e, d1)
                  | Inr nw \<Rightarrow>
                      (Rerolled tr nw,
                       d1\<lparr>winners := fold (insert_winner (gw_id g)) nw (winners d1),
                          win_counts := fold (bump_win (guild_id g)) nw (win_counts d1)\<rparr>))))"

section \<open>Example databases\<close>

text \<open>
  Guild 7 with one ended giveaway (id 1, one winner requested): users 10 and 11 entered,
  user 10 won and vouched, and a vouch of user 11 is blocked.
\<close>

definition gw1 :: giveaway where
  "gw1 = \<lparr>gw_id = 1, guild_id = 7, channel_id = 0, message_id = None, host_id = 0,
          prize = ''p'', winners_count = 1, ends_at = 0, status = ''ended''\<rparr>"

definition db1 :: db where
  "db1 = \<lparr>giveaways = [gw1], last_rowid = 1, entrants = [(1, 10), (1, 11)],
     winners = [(1, 10)], win_counts = [(7, 10) \<mapsto> 1], vouches = [(7, 10, 1)],
     vouch_blocks = [(7, 11, 1)]\<rparr>"

text \<open>
  The order CPython gives a set of a few small non-negative integers: the slot of \<open>n\<close>
  in the hash table is \<open>n mod 8\<close>, so 10 and 11 are read back in ascending order
  whatever the order they were added in.
\<close>

definition sorted_iter :: "int list \<Rightarrow> int list" where
  "sorted_iter xs = sort (remdups xs)"

text \<open>
  \<open>db2\<close>: an ended giveaway for two winners; user 11 was recorded as a winner first,
  user 10 second. \<open>db3\<close>: a winner and no entrant, as \<open>/gw manual\<close> leaves it.
  \<open>db4\<close>: the ended giveaway of \<open>db1\<close> with no winner.
\<close>

definition gw2 :: giveaway where
  "gw2 = \<lparr>gw_id = 1, guild_id = 7, channel_id = 0, message_id = None, host_id = 0,
          prize = ''p'', winners_count = 2, ends_at = 0, status = ''ended''\<rparr>"

definition db2 :: db where
  "db2 = \<lparr>giveaways = [gw2], last_rowid = 1, entrants = [(1, 10), (1, 11), (1, 12)],
     winners = [(1, 11), (1, 10)], win_counts = [(7, 11) \<mapsto> 1, (7, 10) \<mapsto> 1], vouches = [],
     vouch_blocks = []\<rparr>"


definition db4 :: db where
  "db4 = \<lparr>giveaways = [gw1], last_rowid = 1, entrants = [(1, 10), (1, 11)],
     winners = [], win_counts = Map.empty, vouches = [], vouch_blocks = []\<rparr>"

text \<open>The new winners a reroll outcome reports (none for a failure).\<close>

definition added_of :: "reroll_result \<Rightarrow> int list" where
  "added_of r = (case r of Rerolled _ added \<Rightarrow> added | _ \<Rightarrow> [])"

text \<open>
  The values the random number generator can return during \<open>sample\<close> of \<open>k\<close> out of
  \<open>n\<close>: the call number \<open>i\<close> (from 0) returns a value below \<open>n - i\<close>. The generator
  makes each of these lists equally likely, so an outcome's probability is the number of
  lists that lead to it, divided by the number of all lists.
\<close>

definition draws :: "nat \<Rightarrow> nat \<Rightarrow> nat list set" where
  "draws n k = {rs. length rs = k \<and> (\<forall>i<k. rs ! i < n - i)}"

text \<open>
  \<open>db5\<close>: a running giveaway for two winners with entrants 10, 11 and 12.
\<close>

definition gw3 :: giveaway where
  "gw3 = \<lparr>gw_id = 1, guild_id = 7, channel_id = 0, message_id = None, host_id = 0,
          prize = ''p'', winners_count = 2, ends_at = 100, status = ''running''\<rparr>"

definition db5 :: db where
  "db5 = \<lparr>giveaways = [gw3], last_rowid = 1, entrants = [(1, 10), (1, 11), (1, 12)],
     winners = [], win_counts = Map.empty, vouches = [], vouch_blocks = []\<rparr>"



section \<open>Basic facts about the storage helpers\<close>

lemma find_SomeD: "find P xs = Some y \<Longrightarrow> y \<in> set xs \<and> P y"
  by (induction xs) (auto split: if_splits)

lemma fetch_giveaway_SomeD:
  "fetch_giveaway d i = Some g \<Longrightarrow> g \<in> set (giveaways d) \<and> gw_id g = i"
  unfolding fetch_giveaway_def by (drule find_SomeD) simp

lemma find_append_new:
  "find P xs = None \<Longrightarrow> P y \<Longrightarrow> find P (xs @ [y]) = Some y"
  by (induction xs) (auto split: if_splits)






section \<open>Eligibility\<close>

text \<open>
  C7. For every guild and user, the join button approves the entry exactly when the stored
  win count (0 when there is no row) is at most the number of vouch rows of that user in
  that guild, over all giveaways; equal values permit entry, and a rejected click changes
  nothing.
\<close>

theorem c7_join_gate:
  "approved (fst (join d guild i user)) = (wins_of d guild user \<le> vouch_count d guild user)
   \<and> (wins_of d guild user = vouch_count d guild user \<longrightarrow> approved (fst (join d guild i user)))
   \<and> (\<not> approved (fst (join d guild i user)) \<longrightarrow> snd (join d guild i user) = d)"
  by (auto simp: join_def approved_def Let_def)

text \<open>User 10 has one win and one vouch: the equal values let the click through.\<close>

theorem c7_join_gate_witness:
  "wins_of db1 7 10 = 1 \<and> vouch_count db1 7 10 = 1 \<and> approved (fst (join db1 7 1 10))"
  using c7_join_gate [of db1 7 1 10]
  by (simp add: wins_of_def row_wins_def vouch_count_def db1_def)

section \<open>Deleting a giveaway\<close>




section \<open>Manual giveaways\<close>

text \<open>
  C10. \<open>add_manual_giveaway_with_winner\<close> reuses a giveaway of the guild with the same
  prize text when there is one (no row is added, the id returned is that of such a
  giveaway), and it raises the user's win count by one in every case, also when the
  winner row is already there and is not inserted again. Repeating the call with the same
  guild, prize and user returns the same id, leaves the giveaways and the winners as they
  are and raises the win count once more.
\<close>

theorem c10_manual:
  assumes "add_manual_giveaway_with_winner d guild p user now = (i, d')"
      and "add_manual_giveaway_with_winner d' guild p user now' = (i', d'')"
  shows "((\<exists>g\<in>set (giveaways d). guild_id g = guild \<and> prize g = p) \<longrightarrow>
            giveaways d' = giveaways d
            \<and> (\<exists>g\<in>set (giveaways d). gw_id g = i \<and> guild_id g = guild \<and> prize g = p))
       \<and> wins_of d' guild user = wins_of d guild user + 1
       \<and> ((i, user) \<in> set (winners d) \<longrightarrow> winners d' = winners d)
       \<and> i' = i \<and> giveaways d'' = giveaways d' \<and> winners d'' = winners d'
       \<and> wins_of d'' guild user = wins_of d guild user + 2"
proof (cases "find (\<lambda>g. guild_id g = guild \<and> prize g = p) (giveaways d)")
  case None
  then have no: "\<not> (\<exists>g\<in>set (giveaways d). guild_id g = guild \<and> prize g = p)"
    by (auto simp: find_None_iff)
  let ?g = "\<lparr>gw_id = next_rowid d, guild_id = guild, channel_id = 0, message_id = None,
             host_id = 0, prize = p, winners_count = 1, ends_at = now, status = ''ended''\<rparr>"
  from None assms(1) have i: "i = next_rowid d"
    and d': "d' = d\<lparr>giveaways := giveaways d @ [?g], last_rowid := next_rowid d,
                   winners := insert_winner i user (winners d),
                   win_counts := bump_win guild user (win_counts d)\<rparr>"
    by (auto simp: add_manual_giveaway_with_winner_def insert_giveaway_def Let_def)
  have f': "find (\<lambda>g. guild_id g = guild \<and> prize g = p) (giveaways d') = Some ?g"
    using None by (simp add: d' find_append_new)
  from assms(2) f' have i': "i' = i"
    and d'': "d'' = d'\<lparr>winners := insert_winner i user (winners d'),
                      win_counts := bump_win guild user (win_counts d')\<rparr>"
    by (auto simp: add_manual_giveaway_with_winner_def Let_def i)
  show ?thesis
    using no i' by (simp add: d'' d' i wins_of_def row_wins_def bump_win_def insert_winner_def split: option.splits)
next
  case (Some g)
  then have g: "g \<in> set (giveaways d)" "guild_id g = guild" "prize g = p"
    by (auto dest: find_SomeD)
  from Some assms(1) have i: "i = gw_id g"
    and d': "d' = d\<lparr>winners := insert_winner i user (winners d),
                   win_counts := bump_win guild user (win_counts d)\<rparr>"
    by (auto simp: add_manual_giveaway_with_winner_def Let_def)
  have f': "find (\<lambda>g. guild_id g = guild \<and> prize g = p) (giveaways d') = Some g"
    using Some by (simp add: d')
  from assms(2) f' have i': "i' = i"
    and d'': "d'' = d'\<lparr>winners := insert_winner i user (winners d'),
                      win_counts := bump_win guild user (win_counts d')\<rparr>"
    by (auto simp: add_manual_giveaway_with_winner_def Let_def i)
  show ?thesis
    using g i' by (auto simp: d'' d' i wins_of_def row_wins_def bump_win_def insert_winner_def split: option.splits)
qed

theorem c10_manual_witness:
  "winners (snd (add_manual_giveaway_with_winner db1 7 ''p'' 10 5)) = winners db1
   \<and> wins_of (snd (add_manual_giveaway_with_winner db1 7 ''p'' 10 5)) 7 10 = 2
   \<and> wins_of (snd (add_manual_giveaway_with_winner
                     (snd (add_manual_giveaway_with_winner db1 7 ''p'' 10 5)) 7 ''p'' 10 6)) 7 10 = 3
   \<and> winners (snd (add_manual_giveaway_with_winner
                     (snd (add_manual_giveaway_with_winner db1 7 ''p'' 10 5)) 7 ''p'' 10 6))
       = [(1, 10)]"
proof -
  have w: "wins_of db1 7 10 = 1" "winners db1 = [(1, 10)]"
    by (simp_all add: wins_of_def row_wins_def db1_def)
  have i: "fst (add_manual_giveaway_with_winner db1 7 ''p'' 10 5) = 1"
    by (simp add: add_manual_giveaway_with_winner_def db1_def gw1_def Let_def)
  from c10_manual [OF surjective_pairing surjective_pairing, of db1 7 "''p''" 10 5 6] w i
  show ?thesis by simp
qed

section \<open>Sampling and the reroll\<close>

lemma set_iter_okD:
  "set_iter_ok si \<Longrightarrow> distinct (si xs)" "set_iter_ok si \<Longrightarrow> set (si xs) = set xs"
  by (simp_all add: set_iter_ok_def)

lemma set_iter_ok_Nil: "set_iter_ok si \<Longrightarrow> (si xs = []) = (xs = [])"
  by (metis set_iter_okD(2) set_empty)

lemma set_iter_ok_remdups: "set_iter_ok remdups"
  by (simp add: set_iter_ok_def)

lemma pool_step:
  assumes "distinct pool" "j < length pool"
  shows "distinct (butlast (pool[j := last pool]))"
    and "set (butlast (pool[j := last pool])) = set pool - {pool ! j}"
    and "length (butlast (pool[j := last pool])) = length pool - 1"
proof -
  from assms(2) have ne: "pool \<noteq> []" by auto
  define xs l where "xs = butlast pool" and "l = last pool"
  from ne have pool: "pool = xs @ [l]" by (simp add: xs_def l_def)
  from assms(1) pool have d: "distinct xs" "l \<notin> set xs" by auto
  show "length (butlast (pool[j := last pool])) = length pool - 1" by simp
  show "distinct (butlast (pool[j := last pool]))"
  proof (cases "j = length xs")
    case True
    then show ?thesis using d by (simp add: pool)
  next
    case False
    with assms(2) pool have "j < length xs" by simp
    then show ?thesis using d by (simp add: pool list_update_append distinct_list_update)
  qed
  show "set (butlast (pool[j := last pool])) = set pool - {pool ! j}"
  proof (cases "j = length xs")
    case True
    then show ?thesis using d by (auto simp: pool)
  next
    case False
    with assms(2) pool have j: "j < length xs" by simp
    then have "xs ! j \<in> set xs" by simp
    with d have "xs ! j \<noteq> l" by auto
    then show ?thesis using d j
      by (auto simp: pool list_update_append nth_append set_update_distinct)
  qed
qed

lemma sample_loop_Suc:
  "pool \<noteq> [] \<Longrightarrow>
     sample_loop pool (Suc k) rs =
       pool ! ((case rs of [] \<Rightarrow> 0 | r # _ \<Rightarrow> r) mod length pool)
       # sample_loop (butlast (pool[(case rs of [] \<Rightarrow> 0 | r # _ \<Rightarrow> r) mod length pool
                                      := last pool])) k (tl rs)"
  by (cases pool) (simp_all add: Let_def)

lemma sample_loop_props:
  "distinct pool \<Longrightarrow> k \<le> length pool \<Longrightarrow>
     length (sample_loop pool k rs) = k \<and> distinct (sample_loop pool k rs)
     \<and> set (sample_loop pool k rs) \<subseteq> set pool"
proof (induction k arbitrary: pool rs)
  case 0
  then show ?case by simp
next
  case (Suc k)
  then have ne: "pool \<noteq> []" by auto
  define j where "j = (case rs of [] \<Rightarrow> 0 | r # _ \<Rightarrow> r) mod length pool"
  define pool' where "pool' = butlast (pool[j := last pool])"
  have j: "j < length pool" using ne by (simp add: j_def)
  note ps = pool_step [OF Suc.prems(1) j, folded pool'_def]
  from Suc.prems have "k \<le> length pool'" by (simp add: ps)
  from Suc.IH [OF ps(1) this, of "tl rs"]
  have IH: "length (sample_loop pool' k (tl rs)) = k" "distinct (sample_loop pool' k (tl rs))"
    "set (sample_loop pool' k (tl rs)) \<subseteq> set pool'"
    by simp_all
  have eq: "sample_loop pool (Suc k) rs = pool ! j # sample_loop pool' k (tl rs)"
    using ne by (simp add: sample_loop_Suc j_def pool'_def del: sample_loop.simps)
  from IH ps j show ?case unfolding eq by auto
qed

lemma setsize_ge: "21 \<le> setsize k"
  by (simp add: setsize_def)

lemma redraw_Some:
  "redraw selected n rs = Some (j, rs') \<Longrightarrow> 0 < n \<Longrightarrow> j < n \<and> j \<notin> set selected"
  by (induction rs) (auto split: if_splits)

lemma sample_set_props:
  "sample_set population selected k rs = Some ws \<Longrightarrow> distinct population \<Longrightarrow>
     population \<noteq> [] \<Longrightarrow> \<forall>s\<in>set selected. s < length population \<Longrightarrow>
     length ws = k \<and> distinct ws \<and> set ws \<subseteq> set population
     \<and> set ws \<inter> (\<lambda>j. population ! j) ` set selected = {}"
proof (induction k arbitrary: selected rs ws)
  case 0
  then show ?case by simp
next
  case (Suc k)
  from Suc.prems(1) obtain j rs' ws' where
    r: "redraw selected (length population) rs = Some (j, rs')"
    and s': "sample_set population (j # selected) k rs' = Some ws'"
    and ws: "ws = population ! j # ws'"
    by (auto split: option.splits)
  from Suc.prems(3) have n: "0 < length population" by simp
  from redraw_Some [OF r n] have j: "j < length population" "j \<notin> set selected" by simp_all
  from j(1) Suc.prems(4) have sel: "\<forall>s\<in>set (j # selected). s < length population" by simp
  from Suc.IH [OF s' Suc.prems(2,3) sel]
  have IH: "length ws' = k" "distinct ws'" "set ws' \<subseteq> set population"
    "set ws' \<inter> (\<lambda>j. population ! j) ` set (j # selected) = {}"
    by simp_all
  from IH(4) have nj: "population ! j \<notin> set ws'"
    and rest: "set ws' \<inter> (\<lambda>j. population ! j) ` set selected = {}"
    by auto
  have "population ! j \<notin> (\<lambda>j. population ! j) ` set selected"
  proof
    assume "population ! j \<in> (\<lambda>j. population ! j) ` set selected"
    then obtain s where s: "s \<in> set selected" "population ! j = population ! s" by auto
    with Suc.prems(4) have "s < length population" by simp
    with s(2) j(1) Suc.prems(2) have "j = s" by (simp add: nth_eq_iff_index_eq)
    with s(1) j(2) show False by simp
  qed
  with IH(1,2,3) nj rest j(1) show ?case unfolding ws by auto
qed

lemma sample_Inr_props:
  assumes "sample pool k rs = Inr ws" "distinct pool"
  shows "int (length ws) = k" "distinct ws" "set ws \<subseteq> set pool"
proof -
  from assms(1) have k: "0 \<le> k" "k \<le> int (length pool)"
    by (auto simp: sample_def split: if_splits)
  have "int (length ws) = k \<and> distinct ws \<and> set ws \<subseteq> set pool"
  proof (cases "length pool \<le> setsize (nat k)")
    case True
    with assms(1) k have "ws = sample_loop pool (nat k) rs" by (simp add: sample_def)
    with sample_loop_props [OF assms(2), of "nat k" rs] k show ?thesis by simp
  next
    case False
    with assms(1) k have s: "sample_set pool [] (nat k) (rs @ [0]) = Some ws"
      by (simp add: sample_def split: option.splits)
    from False setsize_ge [of "nat k"] have "pool \<noteq> []" by auto
    with sample_set_props [OF s assms(2)] k show ?thesis by simp
  qed
  then show "int (length ws) = k" "distinct ws" "set ws \<subseteq> set pool" by simp_all
qed

lemma sample_Inl:
  "sample pool k rs = Inl e \<Longrightarrow> 0 \<le> k \<Longrightarrow> k \<le> int (length pool) \<Longrightarrow>
     e = NoReturn \<and> setsize (nat k) < length pool"
  by (auto simp: sample_def split: if_splits option.splits)

lemma sample_small:
  "0 \<le> k \<Longrightarrow> k \<le> int (length pool) \<Longrightarrow> length pool \<le> setsize (nat k) \<Longrightarrow>
     sample pool k rs = Inr (sample_loop pool (nat k) rs)"
  by (simp add: sample_def)

lemma fetch_giveaway_SomeD':
  "fetch_giveaway d i = Some g \<Longrightarrow> gw_id g = i"
  by (drule fetch_giveaway_SomeD) simp

lemma to_remove_of_None:
  fixes prev :: "int list" and count :: "int option"
  assumes "prev \<noteq> []"
  defines "k \<equiv> nat (min (max 1 (case count of None \<Rightarrow> 1 | Some c \<Rightarrow> if c = 0 then 1 else c))
                       (int (length prev)))"
  shows "to_remove_of prev count None = Some (drop (length prev - k) prev)"
    and "1 \<le> k" and "k \<le> length prev"
    and "length (drop (length prev - k) prev) = k"
proof -
  from assms(1) have "1 \<le> length prev" by (cases prev) auto
  then show "1 \<le> k" "k \<le> length prev" unfolding k_def by (auto split: option.splits)
  then show "length (drop (length prev - k) prev) = k" by simp
  show "to_remove_of prev count None = Some (drop (length prev - k) prev)"
    by (simp add: to_remove_of_def k_def Let_def)
qed

lemma to_remove_of_props:
  assumes "to_remove_of prev count target = Some tr" "prev \<noteq> []" "distinct prev"
  shows "tr \<noteq> []" "distinct tr" "set tr \<subseteq> set prev"
proof -
  show "tr \<noteq> []"
  proof (cases target)
    case None
    with assms to_remove_of_None [OF assms(2), of count] show ?thesis
      by (metis length_0_conv not_one_le_zero option.inject)
  next
    case (Some t)
    with assms show ?thesis by (auto simp: to_remove_of_def split: if_splits)
  qed
  show "distinct tr" using assms
    by (auto simp: to_remove_of_def Let_def split: option.splits if_splits)
  show "set tr \<subseteq> set prev" using assms
    by (auto simp: to_remove_of_def Let_def split: option.splits if_splits dest: in_set_dropD)
qed

lemma get_entrants_decrement_remove [simp]:
  "get_entrants (decrement_win_counts (remove_winners d i tr) gg tr) j = get_entrants d j"
  by (simp add: get_entrants_def decrement_win_counts_def remove_winners_def)

lemma fetch_giveaway_decrement_remove [simp]:
  "fetch_giveaway (decrement_win_counts (remove_winners d i tr) gg tr) j = fetch_giveaway d j"
  by (simp add: fetch_giveaway_def decrement_win_counts_def remove_winners_def)

lemma reroll_valid:
  assumes "fetch_giveaway d i = Some g" "guild_id g = guild" "status g = ''ended''"
    "si (get_winners d i) \<noteq> []"
    "to_remove_of (si (get_winners d i)) count target = Some tr"
  shows "reroll si d guild i count target rs = reroll_body si d g (si (get_winners d i)) tr rs"
proof -
  have i: "gw_id g = i" using assms(1) by (rule fetch_giveaway_SomeD')
  show ?thesis using assms
    by (simp add: reroll_def reroll_body_def Let_def i set_winners_def increment_win_counts_def
        split: sum.splits)
qed

lemma reroll_inv:
  assumes "reroll si d guild i count target rs = (r, d')"
  shows "(r = RerollNotFound \<or> r = NotEnded \<or> r = NoPreviousWinners \<or> r = NotAWinner) \<and> d' = d
     \<or> (\<exists>g tr. fetch_giveaway d i = Some g \<and> guild_id g = guild \<and> status g = ''ended''
           \<and> si (get_winners d i) \<noteq> []
           \<and> to_remove_of (si (get_winners d i)) count target = Some tr
           \<and> reroll_body si d g (si (get_winners d i)) tr rs = (r, d'))"
proof (cases "fetch_giveaway d i")
  case None
  with assms show ?thesis by (simp add: reroll_def)
next
  case (Some g)
  have i: "gw_id g = i" using Some by (rule fetch_giveaway_SomeD')
  show ?thesis
  proof (cases "guild_id g = guild \<and> status g = ''ended'' \<and> si (get_winners d i) \<noteq> []")
    case False
    with assms Some i show ?thesis by (auto simp: reroll_def Let_def split: if_splits)
  next
    case True
    show ?thesis
    proof (cases "to_remove_of (si (get_winners d i)) count target")
      case None
      with assms Some i True show ?thesis by (simp add: reroll_def Let_def)
    next
      case (Some tr)
      from True have "guild_id g = guild" "status g = ''ended''" "si (get_winners d i) \<noteq> []"
        by simp_all
      with \<open>fetch_giveaway d i = Some g\<close> Some
      have "reroll si d guild i count target rs
              = reroll_body si d g (si (get_winners d i)) tr rs"
        by (intro reroll_valid)
      with assms have "reroll_body si d g (si (get_winners d i)) tr rs = (r, d')" by simp
      with \<open>fetch_giveaway d i = Some g\<close> True Some show ?thesis by blast
    qed
  qed
qed

lemma set_fold_insert_winner:
  "set (fold (insert_winner i) us ws) = set ws \<union> Pair i ` set us"
  by (induction us arbitrary: ws) (auto simp: insert_winner_def)

lemma distinct_fold_insert_winner:
  "distinct ws \<Longrightarrow> distinct (fold (insert_winner i) us ws)"
  by (induction us arbitrary: ws) (auto simp: insert_winner_def)

lemma length_fold_insert_winner:
  "length (fold (insert_winner i) us ws) \<le> length ws + length us"
proof (induction us arbitrary: ws)
  case Nil
  then show ?case by simp
next
  case (Cons u us)
  have "length (insert_winner i u ws) \<le> Suc (length ws)" by (simp add: insert_winner_def)
  with Cons [of "insert_winner i u ws"] show ?case by simp
qed

lemma fold_insert_winner_new:
  "distinct us \<Longrightarrow> \<forall>u\<in>set us. (i, u) \<notin> set ws \<Longrightarrow>
     fold (insert_winner i) us ws = ws @ map (Pair i) us"
proof (induction us arbitrary: ws)
  case Nil
  then show ?case by simp
next
  case (Cons a us)
  from Cons.prems have "insert_winner i a ws = ws @ [(i, a)]" by (simp add: insert_winner_def)
  moreover from Cons.prems have "distinct us" "\<forall>u\<in>set us. (i, u) \<notin> set (ws @ [(i, a)])"
    by auto
  ultimately show ?case using Cons.IH [of "ws @ [(i, a)]"] by simp
qed

lemma set_get_winners: "set (get_winners d i) = {u. (i, u) \<in> set (winners d)}"
  by (force simp: get_winners_def)

lemma set_get_entrants: "set (get_entrants d i) = {u. (i, u) \<in> set (entrants d)}"
  by (force simp: get_entrants_def)

lemma bump_win_apply:
  "bump_win g a m k = (if k = (g, a) then Some (row_wins m (g, a) + 1) else m k)"
  by (auto simp: bump_win_def row_wins_def split: option.splits)

lemma row_wins_bump:
  "row_wins (bump_win g a m) k = (if k = (g, a) then row_wins m k + 1 else row_wins m k)"
  by (simp add: row_wins_def bump_win_apply)

lemma row_wins_fold_bump:
  "distinct us \<Longrightarrow>
     row_wins (fold (bump_win g) us m) (g', u) =
       (if g' = g \<and> u \<in> set us then row_wins m (g', u) + 1 else row_wins m (g', u))"
  by (induction us arbitrary: m) (auto simp: row_wins_bump)





text \<open>What \<open>reroll_body\<close> leaves behind, for every outcome.\<close>

lemma reroll_body_effect:
  assumes ok: "set_iter_ok si"
    and prev: "set prev = set (get_winners d (gw_id g))"
    and tr: "distinct tr" "set tr \<subseteq> set prev"
    and rb: "reroll_body si d g prev tr rs = (r, d')"
  obtains nw where
    "winners d' = fold (insert_winner (gw_id g)) nw
                    (filter (\<lambda>r. \<not> (fst r = gw_id g \<and> snd r \<in> set tr)) (winners d))"
    "win_counts d' = fold (bump_win (guild_id g)) nw
                       (prune_zero (guild_id g) (fold (drop_win (guild_id g)) tr (win_counts d)))"
    "giveaways d' = giveaways d" "entrants d' = entrants d" "vouches d' = vouches d"
    "vouch_blocks d' = vouch_blocks d" "last_rowid d' = last_rowid d"
    "distinct nw" "set nw \<subseteq> set (get_entrants d (gw_id g)) - set prev"
    "length nw = min (card (set (get_entrants d (gw_id g)) - set prev)) (length tr)
       \<or> (\<exists>e. r = RerollFailed e)"
    "r = Rerolled tr nw \<or> nw = [] \<and> (r = NoEntrants \<or> r = NoEligiblePool \<or> (\<exists>e. r = RerollFailed e))"
    "r = NoEntrants \<longleftrightarrow> get_entrants d (gw_id g) = []"
    "r = NoEligiblePool \<longleftrightarrow> get_entrants d (gw_id g) \<noteq> []
        \<and> set (get_entrants d (gw_id g)) \<subseteq> set prev"
proof -
  define d1 where "d1 = decrement_win_counts (remove_winners d (gw_id g) tr) (guild_id g) tr"
  define ents where "ents = get_entrants d (gw_id g)"
  define pool where "pool = si (filter (\<lambda>u. u \<notin> set prev) ents)"
  have d1: "winners d1 = filter (\<lambda>r. \<not> (fst r = gw_id g \<and> snd r \<in> set tr)) (winners d)"
    "win_counts d1 = prune_zero (guild_id g) (fold (drop_win (guild_id g)) tr (win_counts d))"
    "giveaways d1 = giveaways d" "entrants d1 = entrants d" "vouches d1 = vouches d"
    "vouch_blocks d1 = vouch_blocks d" "last_rowid d1 = last_rowid d"
    by (simp_all add: d1_def decrement_win_counts_def remove_winners_def)
  have pool: "distinct pool" "set pool = set ents - set prev"
    using ok by (auto simp: pool_def set_iter_okD)
  have card: "card (set ents - set prev) = length pool"
    using pool by (metis distinct_card)
  show thesis
  proof (cases "ents = []")
    case True
    with rb have "r = NoEntrants" "d' = d1"
      by (simp_all add: reroll_body_def d1_def ents_def Let_def)
    with True show ?thesis using d1 pool
      by (intro that [of "[]"]) (simp_all add: ents_def)
  next
    case ne: False
    show ?thesis
    proof (cases "pool = []")
      case True
      with rb ne have "r = NoEligiblePool" "d' = d1"
        by (simp_all add: reroll_body_def d1_def ents_def pool_def Let_def)
      moreover from True pool have e: "set (get_entrants d (gw_id g)) - set prev = {}"
        by (simp add: ents_def)
      moreover from e have "set (get_entrants d (gw_id g)) \<subseteq> set prev" by blast
      ultimately show ?thesis using ne d1
        by (intro that [of "[]"]) (simp_all add: ents_def e)
    next
      case pne: False
      define k where "k = min (int (length pool)) (int (length tr))"
      have k: "0 \<le> k" "k \<le> int (length pool)" by (simp_all add: k_def)
      show ?thesis
      proof (cases "sample pool k rs")
        case (Inl e)
        with rb ne pne have "r = RerollFailed e" "d' = d1"
          by (simp_all add: reroll_body_def d1_def [symmetric] ents_def [symmetric]
              pool_def [symmetric] k_def [symmetric] Let_def)
        moreover have "\<not> set (get_entrants d (gw_id g)) \<subseteq> set prev"
        proof
          assume "set (get_entrants d (gw_id g)) \<subseteq> set prev"
          then have "set ents - set prev = {}" by (simp only: ents_def Diff_eq_empty_iff)
          with pool(2) have "set pool = {}" by simp
          with pne show False by simp
        qed
        ultimately show ?thesis using ne d1
          by (intro that [of "[]"]) (simp_all add: ents_def)
      next
        case (Inr nw)
        note nw = Inr sample_Inr_props [OF Inr pool(1)]
      from rb ne pne nw(1) have r: "r = Rerolled tr nw"
        and d': "d' = d1\<lparr>winners := fold (insert_winner (gw_id g)) nw (winners d1),
                         win_counts := fold (bump_win (guild_id g)) nw (win_counts d1)\<rparr>"
        by (simp_all add: reroll_body_def d1_def [symmetric] ents_def [symmetric]
            pool_def [symmetric] k_def [symmetric] Let_def)
      have len: "length nw = min (card (set ents - set prev)) (length tr)"
        using nw(2) by (simp add: k_def card)
      have "\<not> set ents \<subseteq> set prev"
      proof
        assume "set ents \<subseteq> set prev"
        then have "set ents - set prev = {}" by (simp only: Diff_eq_empty_iff)
        with pool(2) have "set pool = {}" by simp
        with pne show False by simp
      qed
      have sub: "set nw \<subseteq> set (get_entrants d (gw_id g)) - set prev"
        using nw(4) pool(2) by (simp add: ents_def)
      have w': "winners d' = fold (insert_winner (gw_id g)) nw
                    (filter (\<lambda>r. \<not> (fst r = gw_id g \<and> snd r \<in> set tr)) (winners d))"
        and c': "win_counts d' = fold (bump_win (guild_id g)) nw
                       (prune_zero (guild_id g) (fold (drop_win (guild_id g)) tr (win_counts d)))"
        and o': "giveaways d' = giveaways d" "entrants d' = entrants d" "vouches d' = vouches d"
          "vouch_blocks d' = vouch_blocks d" "last_rowid d' = last_rowid d"
        by (simp_all add: d' d1)
      have n1: "r \<noteq> NoEntrants" "r \<noteq> NoEligiblePool" by (simp_all add: r)
      show ?thesis
      proof (rule that [of nw])
        show "length nw = min (card (set (get_entrants d (gw_id g)) - set prev)) (length tr)
                \<or> (\<exists>e. r = RerollFailed e)"
          using len by (simp add: ents_def)
        show "r = Rerolled tr nw
                \<or> nw = [] \<and> (r = NoEntrants \<or> r = NoEligiblePool \<or> (\<exists>e. r = RerollFailed e))"
          using r by simp
        show "(r = NoEntrants) = (get_entrants d (gw_id g) = [])"
          using n1 ne by (simp add: ents_def)
        show "(r = NoEligiblePool) = (get_entrants d (gw_id g) \<noteq> []
                \<and> set (get_entrants d (gw_id g)) \<subseteq> set prev)"
          using n1 \<open>\<not> set ents \<subseteq> set prev\<close> by (simp add: ents_def)
      qed (fact w' c' o' nw(3) sub)+
      qed
    qed
  qed
qed

lemmas storage_defs = fetch_giveaway_def get_winners_def get_entrants_def remove_winners_def
  setsize_def
  decrement_win_counts_def set_winners_def increment_win_counts_def insert_winner_def
  set_giveaway_status_def sample_def to_remove_of_def Let_def

lemma set_iter_ok_sorted: "set_iter_ok sorted_iter"
  by (simp add: set_iter_ok_def sorted_iter_def)

lemma get_winners_after_body:
  assumes "winners d' = fold (insert_winner i) nw
                    (filter (\<lambda>r. \<not> (fst r = i \<and> snd r \<in> set tr)) (winners d))"
  shows "set (get_winners d' i) = set (get_winners d i) - set tr \<union> set nw"
  by (auto simp: set_get_winners assms set_fold_insert_winner)

section \<open>A reroll that finds nobody to draw\<close>




section \<open>The pool of a reroll\<close>

lemma reroll_Rerolled_pool:
  assumes "reroll_body si d g prev tr rs = (Rerolled removed added, d')"
  shows "removed = tr
    \<and> sample (si (filter (\<lambda>u. u \<notin> set prev) (get_entrants d (gw_id g))))
         (min (int (length (si (filter (\<lambda>u. u \<notin> set prev) (get_entrants d (gw_id g))))))
              (int (length tr))) rs = Inr added"
  using assms by (auto simp: reroll_body_def Let_def split: if_splits sum.splits)

text \<open>
  C2, as the code has it. A reroll that completes draws the replacement winners from the
  entrants of the giveaway minus the users who hold a winner record of it when the reroll
  starts: those it removes and those it leaves. So none of them is drawn, the new winners
  are distinct entrants, as many as were removed or as the pool holds, and the winners
  afterwards are the old ones less the removed plus the drawn.
\<close>

theorem c2_reroll_pool:
  assumes "set_iter_ok si"
    and "reroll si d guild i count target rs = (Rerolled removed added, d')"
  shows "(\<exists>pool. distinct pool
            \<and> set pool = set (get_entrants d i) - set (get_winners d i)
            \<and> sample pool (min (int (length pool)) (int (length removed))) rs = Inr added)
       \<and> set added \<inter> set (get_winners d i) = {}
       \<and> set added \<subseteq> set (get_entrants d i)
       \<and> distinct added
       \<and> length added = min (card (set (get_entrants d i) - set (get_winners d i)))
                            (length removed)
       \<and> set removed \<subseteq> set (get_winners d i)
       \<and> set (get_winners d' i) = set (get_winners d i) - set removed \<union> set added"
proof -
  from reroll_inv [OF assms(2)] obtain g tr where
    g: "fetch_giveaway d i = Some g"
    and pv: "si (get_winners d i) \<noteq> []"
    and tr: "to_remove_of (si (get_winners d i)) count target = Some tr"
    and rb: "reroll_body si d g (si (get_winners d i)) tr rs = (Rerolled removed added, d')"
    by auto
  have i: "gw_id g = i" using g by (rule fetch_giveaway_SomeD')
  note ok = set_iter_okD [OF assms(1)]
  note trp = to_remove_of_props [OF tr pv ok(1)]
  have prev: "set (si (get_winners d i)) = set (get_winners d (gw_id g))" by (simp add: ok i)
  from reroll_Rerolled_pool [OF rb] have rm: "removed = tr"
    and sm: "sample (si (filter (\<lambda>u. u \<notin> set (get_winners d i)) (get_entrants d i)))
         (min (int (length (si (filter (\<lambda>u. u \<notin> set (get_winners d i)) (get_entrants d i)))))
              (int (length removed))) rs = Inr added"
    by (simp_all add: i ok)
  have pool: "distinct (si (filter (\<lambda>u. u \<notin> set (get_winners d i)) (get_entrants d i)))"
    "set (si (filter (\<lambda>u. u \<notin> set (get_winners d i)) (get_entrants d i)))
       = set (get_entrants d i) - set (get_winners d i)"
    by (auto simp: ok)
  from reroll_body_effect [OF assms(1) prev trp(2,3) rb] obtain nw where
    w: "winners d' = fold (insert_winner (gw_id g)) nw
                    (filter (\<lambda>r. \<not> (fst r = gw_id g \<and> snd r \<in> set tr)) (winners d))"
    and nw: "distinct nw" "set nw \<subseteq> set (get_entrants d (gw_id g)) - set (si (get_winners d i))"
      "length nw = min (card (set (get_entrants d (gw_id g)) - set (si (get_winners d i))))
          (length tr) \<or> (\<exists>e. Rerolled removed added = RerollFailed e)"
      "Rerolled removed added = Rerolled tr nw \<or> nw = [] \<and> (Rerolled removed added = NoEntrants
          \<or> Rerolled removed added = NoEligiblePool
          \<or> (\<exists>e. Rerolled removed added = RerollFailed e))"
    by blast
  from nw(4) have a: "added = nw" by simp
  have 1: "\<exists>pool. distinct pool
            \<and> set pool = set (get_entrants d i) - set (get_winners d i)
            \<and> sample pool (min (int (length pool)) (int (length removed))) rs = Inr added"
    using pool sm by blast
  have 2: "set added \<inter> set (get_winners d i) = {}" "set added \<subseteq> set (get_entrants d i)"
    using nw(2) by (auto simp: a i ok)
  have 3: "distinct added" using nw(1) a by simp
  have 4: "length added = min (card (set (get_entrants d i) - set (get_winners d i)))
                            (length removed)"
    using nw(3) by (simp add: a i ok rm)
  have 5: "set removed \<subseteq> set (get_winners d i)" using trp(3) by (simp add: rm ok)
  have 6: "set (get_winners d' i) = set (get_winners d i) - set removed \<union> set added"
    using get_winners_after_body [of d' i nw tr d] w by (simp add: i a rm)
  from 1 2 3 4 5 6 show ?thesis by simp
qed

lemma db1_reroll1: "fst (reroll remdups db1 7 1 None None []) = Rerolled [10] [11]"
  by (simp add: reroll_def db1_def gw1_def storage_defs)

lemma db1_reroll1_state:
  "giveaways (snd (reroll remdups db1 7 1 None None [])) = [gw1]"
  "winners (snd (reroll remdups db1 7 1 None None [])) = [(1, 11)]"
  "entrants (snd (reroll remdups db1 7 1 None None [])) = [(1, 10), (1, 11)]"
  by (simp_all add: reroll_def db1_def gw1_def storage_defs)

text \<open>
  The claim speaks of every user who ever held a winner record. The \<open>winners\<close> table
  keeps no trace of a removed winner: in \<open>db1\<close> user 10 is the winner, the first reroll
  replaces 10 by 11, and the second reroll removes 11 and draws 10 again.
\<close>

theorem c2_reroll_reselects_counterexample:
  "get_winners db1 1 = [10]
   \<and> fst (reroll remdups db1 7 1 None None []) = Rerolled [10] [11]
   \<and> fst (reroll remdups (snd (reroll remdups db1 7 1 None None [])) 7 1 None None [])
       = Rerolled [11] [10]"
proof -
  define d2 where "d2 = snd (reroll remdups db1 7 1 None None [])"
  have s: "giveaways d2 = [gw1]" "winners d2 = [(1, 11)]" "entrants d2 = [(1, 10), (1, 11)]"
    by (simp_all add: d2_def db1_reroll1_state)
  have "fst (reroll remdups d2 7 1 None None []) = Rerolled [11] [10]"
    by (simp add: reroll_def s gw1_def storage_defs)
  moreover have "get_winners db1 1 = [10]" by (simp add: db1_def get_winners_def)
  ultimately show ?thesis using db1_reroll1 by (simp add: d2_def)
qed

theorem c2_reroll_pool_witness:
  "set_iter_ok remdups
   \<and> fst (reroll remdups db1 7 1 None None []) = Rerolled [10] [11]
   \<and> set (get_winners (snd (reroll remdups db1 7 1 None None [])) 1) = {11}
   \<and> {11} \<inter> set (get_winners db1 1) = {}"
proof -
  have w: "get_winners db1 1 = [10]" "get_entrants db1 1 = [10, 11]"
    by (simp_all add: db1_def get_winners_def get_entrants_def)
  have e: "reroll remdups db1 7 1 None None []
             = (Rerolled [10] [11], snd (reroll remdups db1 7 1 None None []))"
    using db1_reroll1 by (metis prod.collapse)
  from c2_reroll_pool [OF set_iter_ok_remdups e] w db1_reroll1 set_iter_ok_remdups
  show ?thesis by simp
qed

section \<open>Which winners a reroll removes\<close>

lemma reroll_body_facts:
  assumes "set_iter_ok si"
    and "set prev = set (get_winners d (gw_id g))"
    and "distinct tr" "set tr \<subseteq> set prev"
    and "reroll_body si d g prev tr rs = (r, d')"
  shows "winners d' = fold (insert_winner (gw_id g)) (added_of r)
                    (filter (\<lambda>r. \<not> (fst r = gw_id g \<and> snd r \<in> set tr)) (winners d))"
    and "win_counts d' = fold (bump_win (guild_id g)) (added_of r)
                       (prune_zero (guild_id g) (fold (drop_win (guild_id g)) tr (win_counts d)))"
    and "giveaways d' = giveaways d" and "entrants d' = entrants d"
    and "vouches d' = vouches d" and "vouch_blocks d' = vouch_blocks d"
    and "last_rowid d' = last_rowid d"
    and "distinct (added_of r)"
    and "set (added_of r) \<subseteq> set (get_entrants d (gw_id g)) - set prev"
    and "length (added_of r) \<le> length tr"
    and "r = Rerolled removed added \<Longrightarrow> removed = tr"
proof -
  have "(winners d' = fold (insert_winner (gw_id g)) (added_of r)
                    (filter (\<lambda>r. \<not> (fst r = gw_id g \<and> snd r \<in> set tr)) (winners d))
     \<and> win_counts d' = fold (bump_win (guild_id g)) (added_of r)
                       (prune_zero (guild_id g) (fold (drop_win (guild_id g)) tr (win_counts d)))
     \<and> giveaways d' = giveaways d \<and> entrants d' = entrants d
     \<and> vouches d' = vouches d \<and> vouch_blocks d' = vouch_blocks d
     \<and> last_rowid d' = last_rowid d)
     \<and> (distinct (added_of r)
     \<and> set (added_of r) \<subseteq> set (get_entrants d (gw_id g)) - set prev
     \<and> length (added_of r) \<le> length tr
     \<and> (r = Rerolled removed added \<longrightarrow> removed = tr))"
  proof (rule reroll_body_effect [OF assms], goal_cases)
    case (1 nw)
    from 1(11) have a: "added_of r = nw" by (auto simp: added_of_def)
    have l: "length nw \<le> length tr"
      using 1(10,11) by auto
    have t: "r = Rerolled removed added \<longrightarrow> removed = tr"
      using 1(11) by auto
    from 1(1-9) l t show ?case unfolding a by (intro conjI)
  qed
  then show "winners d' = fold (insert_winner (gw_id g)) (added_of r)
                    (filter (\<lambda>r. \<not> (fst r = gw_id g \<and> snd r \<in> set tr)) (winners d))"
    and "win_counts d' = fold (bump_win (guild_id g)) (added_of r)
                       (prune_zero (guild_id g) (fold (drop_win (guild_id g)) tr (win_counts d)))"
    and "giveaways d' = giveaways d" and "entrants d' = entrants d"
    and "vouches d' = vouches d" and "vouch_blocks d' = vouch_blocks d"
    and "last_rowid d' = last_rowid d"
    and "distinct (added_of r)"
    and "set (added_of r) \<subseteq> set (get_entrants d (gw_id g)) - set prev"
    and "length (added_of r) \<le> length tr"
    and "r = Rerolled removed added \<Longrightarrow> removed = tr"
    by simp_all
qed

lemma sorted_iter_10_11: "sorted_iter [10, 11] = [10, 11]"
  by (simp add: sorted_iter_def)


text \<open>
  C6, as the code has it, for an ended giveaway of the guild. With no winner record the
  command answers "No previous winners found", with or without a target. Otherwise: a
  target that is not a recorded winner gives "not a winner" and no change; a target that
  is one is the single user removed; with no target the users removed are the last \<open>k\<close>
  entries of \<open>list(set(winners))\<close>, in the order the runtime iterates that set, where
  \<open>k\<close> is \<open>count or 1\<close> clamped to between 1 and the number of winners. In each case the
  users who lose their winner record are exactly those, and a completed reroll reports
  them as removed.
\<close>

theorem c6_removal_set:
  assumes "set_iter_ok si" and "fetch_giveaway d i = Some g" and "guild_id g = guild"
    and "status g = ''ended''"
  shows "(get_winners d i = [] \<longrightarrow> reroll si d guild i count target rs = (NoPreviousWinners, d))
    \<and> (get_winners d i \<noteq> [] \<longrightarrow>
         (\<forall>t. target = Some t \<and> t \<notin> set (get_winners d i) \<longrightarrow>
              reroll si d guild i count target rs = (NotAWinner, d))
       \<and> (\<forall>t. target = Some t \<and> t \<in> set (get_winners d i) \<longrightarrow>
              to_remove_of (si (get_winners d i)) count target = Some [t])
       \<and> (target = None \<longrightarrow>
            (let prev = si (get_winners d i);
                 n = length prev;
                 k = nat (min (max 1 (case count of None \<Rightarrow> 1 | Some c \<Rightarrow> if c = 0 then 1 else c))
                              (int n))
             in 1 \<le> k \<and> k \<le> n
                \<and> to_remove_of prev count target = Some (drop (n - k) prev)))
       \<and> (\<forall>tr. to_remove_of (si (get_winners d i)) count target = Some tr \<longrightarrow>
              set (get_winners d i) - set (get_winners (snd (reroll si d guild i count target rs)) i)
                = set tr
              \<and> (\<forall>removed added. fst (reroll si d guild i count target rs) = Rerolled removed added
                    \<longrightarrow> removed = tr)))"
proof (intro conjI impI allI)
  note ok = set_iter_okD [OF assms(1)]
  have i: "gw_id g = i" using assms(2) by (rule fetch_giveaway_SomeD')
  {
    assume "get_winners d i = []"
    then have "si (get_winners d i) = []" using assms(1) by (simp add: set_iter_ok_Nil)
    then show "reroll si d guild i count target rs = (NoPreviousWinners, d)"
      using assms i by (simp add: reroll_def Let_def)
  }
  assume ne: "get_winners d i \<noteq> []"
  then have pv: "si (get_winners d i) \<noteq> []" using assms(1) by (simp add: set_iter_ok_Nil)
  {
    fix t assume "target = Some t \<and> t \<notin> set (get_winners d i)"
    then have "to_remove_of (si (get_winners d i)) count target = None"
      by (simp add: to_remove_of_def ok)
    then show "reroll si d guild i count target rs = (NotAWinner, d)"
      using assms i pv by (simp add: reroll_def Let_def)
  }
  {
    fix t assume "target = Some t \<and> t \<in> set (get_winners d i)"
    then show "to_remove_of (si (get_winners d i)) count target = Some [t]"
      by (simp add: to_remove_of_def ok)
  }
  {
    assume "target = None"
    with to_remove_of_None [OF pv, of count]
    show "let prev = si (get_winners d i);
              n = length prev;
              k = nat (min (max 1 (case count of None \<Rightarrow> 1 | Some c \<Rightarrow> if c = 0 then 1 else c))
                           (int n))
          in 1 \<le> k \<and> k \<le> n \<and> to_remove_of prev count target = Some (drop (n - k) prev)"
      by (simp add: Let_def)
  }
  fix tr assume tr: "to_remove_of (si (get_winners d i)) count target = Some tr"
  note trp = to_remove_of_props [OF tr pv ok(1)]
  have prev: "set (si (get_winners d i)) = set (get_winners d (gw_id g))" by (simp add: ok i)
  have rv: "reroll si d guild i count target rs
              = reroll_body si d g (si (get_winners d i)) tr rs"
    using assms(2,3,4) pv tr by (intro reroll_valid)
  obtain r d' where rd: "reroll si d guild i count target rs = (r, d')" by (cases "reroll si d guild i count target rs")
  with rv have rb: "reroll_body si d g (si (get_winners d i)) tr rs = (r, d')" by simp
  note f = reroll_body_facts [OF assms(1) prev trp(2,3) rb]
  define nw where "nw = added_of r"
  have w: "winners d' = fold (insert_winner (gw_id g)) nw
                    (filter (\<lambda>r. \<not> (fst r = gw_id g \<and> snd r \<in> set tr)) (winners d))"
    and nw: "set nw \<subseteq> set (get_entrants d (gw_id g)) - set (si (get_winners d i))"
    using f(1,9) by (simp_all add: nw_def)
  have gw: "set (get_winners d' i) = set (get_winners d i) - set tr \<union> set nw"
    using get_winners_after_body [of d' i nw tr d] w by (simp add: i)
  from nw have dis: "set nw \<inter> set (get_winners d i) = {}" by (auto simp: ok)
  from trp(3) have sub: "set tr \<subseteq> set (get_winners d i)" by (simp add: ok)
  show "set (get_winners d i) - set (get_winners (snd (reroll si d guild i count target rs)) i)
          = set tr"
    using dis sub by (auto simp: rd gw)
  fix removed added
  assume "fst (reroll si d guild i count target rs) = Rerolled removed added"
  then show "removed = tr" using f(11) by (simp add: rd)
qed

lemma sorted_iter_db2: "sorted_iter (get_winners db2 1) = [10, 11]"
  by (simp add: sorted_iter_def db2_def get_winners_def)

lemma db2_fetch: "fetch_giveaway db2 1 = Some gw2"
  by (simp add: fetch_giveaway_def db2_def gw2_def)

theorem c6_removal_set_witness:
  "winners db2 = [(1, 11), (1, 10)] \<and> get_winners db2 1 = [10, 11]
   \<and> to_remove_of (sorted_iter (get_winners db2 1)) (Some 5) None = Some [10, 11]
   \<and> to_remove_of (sorted_iter (get_winners db2 1)) None None = Some [11]
   \<and> reroll sorted_iter db2 7 1 None (Some 12) [] = (NotAWinner, db2)
   \<and> set (get_winners db2 1)
        - set (get_winners (snd (reroll sorted_iter db2 7 1 None None [])) 1) = {11}"
proof -
  have w: "get_winners db2 1 = [10, 11]" "winners db2 = [(1, 11), (1, 10)]"
    by (simp_all add: db2_def get_winners_def)
  have g: "guild_id gw2 = 7" "status gw2 = ''ended''" by (simp_all add: gw2_def)
  note c6 = c6_removal_set [OF set_iter_ok_sorted db2_fetch g]
  have t: "to_remove_of [10, 11] None None = Some [11]"
    "to_remove_of [10, 11] (Some 5) None = Some [10, 11]"
    by (simp_all add: to_remove_of_def)
  from c6 [of None None "[]"] c6 [of None "Some 12" "[]"] w t
  show ?thesis by (simp add: sorted_iter_10_11)
qed

lemma db4_fetch: "fetch_giveaway db4 1 = Some gw1"
  by (simp add: fetch_giveaway_def db4_def gw1_def)

text \<open>
  The claim fails twice. In \<open>db2\<close> the row of user 11 was inserted first and that of
  user 10 last; the query returns 10, 11 and CPython reads the set back as 10, 11, so a
  reroll of one winner removes user 11, the first recorded, and keeps user 10. In \<open>db4\<close> there is no winner, and a reroll with target 10
  is answered with "No previous winners found", not with "not a winner".
\<close>

theorem c6_insertion_order_counterexample:
  "winners db2 = [(1, 11), (1, 10)] \<and> get_winners db2 1 = [10, 11]
   \<and> fst (reroll sorted_iter db2 7 1 None None []) = Rerolled [11] [12]
   \<and> get_winners (snd (reroll sorted_iter db2 7 1 None None [])) 1 = [10, 12]
   \<and> get_winners db4 1 = []
   \<and> fst (reroll sorted_iter db4 7 1 None (Some 10) []) = NoPreviousWinners"
  by (simp add: reroll_def db2_def gw2_def db4_def gw1_def sorted_iter_def storage_defs)

section \<open>Closing and the status\<close>







lemma map_gw_id_status:
  "map gw_id (map (\<lambda>g'. if gw_id g' = i then g'\<lparr>status := s\<rparr> else g') gs) = map gw_id gs"
  by (induction gs) simp_all














end
